theory Spec2Isabelle
  imports Complex_Main
begin

section \<open>Python strings\<close>

text \<open>
  A Python \<open>str\<close> is a sequence of code points. It is modelled as a \<open>string\<close>, each
  \<open>char\<close> standing for the code point of the same number, so the model covers the
  code points 0 to 255 (ASCII and Latin-1; HTTP header values never leave that range).
\<close>

definition isspace :: "char \<Rightarrow> bool" where
  \<comment> \<open>\<open>str.isspace\<close> on one code point below 256: tab to carriage return, the four
      separators 0x1c-0x1f, space, NEL and the no-break space.\<close>
  "isspace c = (let n = (of_char c :: nat) in
     (9 \<le> n \<and> n \<le> 13) \<or> (28 \<le> n \<and> n \<le> 32) \<or> n = 133 \<or> n = 160)"

definition strip :: "string \<Rightarrow> string" where
  \<comment> \<open>\<open>s.strip()\<close>\<close>
  "strip s = rev (dropWhile isspace (rev (dropWhile isspace s)))"

fun split_from :: "string \<Rightarrow> string \<Rightarrow> string list" where
  \<comment> \<open>the scan of \<open>s.split()\<close>; the first argument is the word being read, reversed\<close>
  "split_from w [] = (if w = [] then [] else [rev w])"
| "split_from w (c # cs) =
     (if isspace c then (if w = [] then split_from [] cs else rev w # split_from [] cs)
      else split_from (c # w) cs)"

definition split :: "string \<Rightarrow> string list" where
  \<comment> \<open>\<open>s.split()\<close>: the maximal runs of non-whitespace characters\<close>
  "split s = split_from [] s"

definition lower_char :: "char \<Rightarrow> char" where
  "lower_char c = (let n = (of_char c :: nat) in
     if (65 \<le> n \<and> n \<le> 90) \<or> (192 \<le> n \<and> n \<le> 222 \<and> n \<noteq> 215)
     then char_of (n + 32) else c)"

definition lower :: "string \<Rightarrow> string" where
  \<comment> \<open>\<open>s.lower()\<close>\<close>
  "lower s = map lower_char s"

definition startswith :: "string \<Rightarrow> string \<Rightarrow> bool" where
  \<comment> \<open>\<open>s.startswith(p)\<close>\<close>
  "startswith s p = (take (length p) s = p)"

fun contains_str :: "string \<Rightarrow> string \<Rightarrow> bool" where
  \<comment> \<open>\<open>sub in s\<close>\<close>
  "contains_str sub [] = (sub = [])"
| "contains_str sub (c # cs) = (startswith (c # cs) sub \<or> contains_str sub cs)"

fun join :: "string \<Rightarrow> string list \<Rightarrow> string" where
  \<comment> \<open>\<open>sep.join(xs)\<close>\<close>
  "join sep [] = []"
| "join sep [x] = x"
| "join sep (x # y # ys) = x @ sep @ join sep (y # ys)"

definition find_char :: "string \<Rightarrow> char \<Rightarrow> int" where
  \<comment> \<open>\<open>s.find(c)\<close>: the first index of \<open>c\<close>, or -1\<close>
  "find_char s c = (if c \<in> set s then int (length (takeWhile (\<lambda>x. x \<noteq> c) s)) else - 1)"

section \<open>Exceptions\<close>

datatype exn =
    RequestException string  \<comment> \<open>\<open>requests.exceptions.RequestException\<close> and its subclasses\<close>
  | ValueError string
  | KeyError string
  | OtherException string    \<comment> \<open>any other subclass of \<open>Exception\<close>\<close>

fun str_exn :: "exn \<Rightarrow> string" where
  \<comment> \<open>\<open>str(e)\<close>, as the f-strings of the source format an exception\<close>
  "str_exn (RequestException m) = m"
| "str_exn (ValueError m) = m"
| "str_exn (KeyError k) = [CHR 0x27] @ k @ [CHR 0x27]"
| "str_exn (OtherException m) = m"

section \<open>The libraries the program calls\<close>

text \<open>
  \<open>requests\<close>, \<open>bs4\<close> and \<open>urllib.parse\<close> are not part of the repository. What the
  network answers, what tree the HTML parser builds and what \<open>urljoin\<close> returns are
  inputs of the model, collected in the record \<open>env\<close>; each may raise.
\<close>

record response =
  status_code :: int
  headers :: "string \<rightharpoonup> string"  \<comment> \<open>keyed by the lower-cased header name, as \<open>CaseInsensitiveDict\<close> stores it\<close>
  body :: string                      \<comment> \<open>\<open>response.text\<close>\<close>

datatype node =
    NavigableString string                        \<comment> \<open>a text node (also \<open>CData\<close>): part of \<open>get_text\<close>\<close>
  | Comment string                                \<comment> \<open>a comment, doctype or other string that \<open>get_text\<close> skips\<close>
  | Tag string "(string \<times> string) list" "node list"   \<comment> \<open>name, attributes, contents\<close>

record env =
  http_get :: "string \<Rightarrow> exn + response"       \<comment> \<open>\<open>requests.get(url, headers=headers, timeout=10)\<close>\<close>
  soup_parse :: "string \<Rightarrow> exn + node list"    \<comment> \<open>the contents of \<open>BeautifulSoup(html, 'html.parser')\<close>\<close>
  urljoin :: "string \<Rightarrow> string \<Rightarrow> exn + string"
  check_bracketed_netloc :: "string \<Rightarrow> string option"
    \<comment> \<open>the validation of a netloc that holds both brackets: \<open>_check_bracketed_netloc\<close>
        (in older releases \<open>_check_bracketed_host\<close> on the part between the brackets);
        the message of the \<open>ValueError\<close> it raises, if any\<close>
  checknetloc :: "string \<Rightarrow> string option"
    \<comment> \<open>the NFKC test of \<open>urllib.parse._checknetloc\<close> on a netloc that is not ASCII\<close>

subsection \<open>\<open>urllib.parse.urlparse\<close>: scheme and netloc\<close>

text \<open>
  The handler reads only \<open>.scheme\<close> and \<open>.netloc\<close> of the parse result, so the model of
  \<open>urlparse\<close> (CPython 3.11 to 3.13, \<open>urlsplit\<close>) computes these two fields and the
  \<open>ValueError\<close>s raised on the way. How a netloc with brackets is validated differs
  between releases and is an input of the model.
\<close>

record parse_result =
  scheme :: string
  netloc :: string

definition scheme_chars :: string where
  "scheme_chars = ''abcdefghijklmnopqrstuvwxyzABCDEFGHIJKLMNOPQRSTUVWXYZ0123456789+-.''"

definition isascii_alpha :: "char \<Rightarrow> bool" where
  \<comment> \<open>\<open>c.isascii() and c.isalpha()\<close>\<close>
  "isascii_alpha c = (let n = (of_char c :: nat) in (65 \<le> n \<and> n \<le> 90) \<or> (97 \<le> n \<and> n \<le> 122))"

definition isascii :: "string \<Rightarrow> bool" where
  "isascii s = list_all (\<lambda>c. (of_char c :: nat) < 128) s"

definition split_scheme :: "string \<Rightarrow> string \<times> string" where
  \<comment> \<open>\<open>i = url.find(':')\<close> and the \<open>for ... else\<close> over \<open>url[:i]\<close>\<close>
  "split_scheme url = (let i = find_char url CHR '':'' in
     if 0 < i \<and> isascii_alpha (hd url) \<and> list_all (\<lambda>c. c \<in> set scheme_chars) (take (nat i) url)
     then (lower (take (nat i) url), drop (nat i + 1) url)
     else ([], url))"

definition urlparse :: "env \<Rightarrow> string \<Rightarrow> exn + parse_result" where
  "urlparse env url0 =
    (let url1 = dropWhile (\<lambda>c. (of_char c :: nat) \<le> 32) url0;
         url2 = filter (\<lambda>c. c \<notin> set [CHR 0x09, CHR 0x0D, CHR 0x0A]) url1;
         (sch, url) = split_scheme url2
     in if take 2 url = ''//'' then
          (let nl = takeWhile (\<lambda>c. c \<notin> set ''/?#'') (drop 2 url);
               lb = CHR ''['' \<in> set nl; rb = CHR '']'' \<in> set nl
           in if (lb \<and> \<not> rb) \<or> (rb \<and> \<not> lb) then Inl (ValueError ''Invalid IPv6 URL'')
              else case (if lb \<and> rb then check_bracketed_netloc env nl else None) of
                Some m \<Rightarrow> Inl (ValueError m)
              | None \<Rightarrow>
                 (case (if nl = [] \<or> isascii nl then None else checknetloc env nl) of
                    Some m \<Rightarrow> Inl (ValueError m)
                  | None \<Rightarrow> Inr \<lparr>scheme = sch, netloc = nl\<rparr>))
        else Inr \<lparr>scheme = sch, netloc = []\<rparr>)"

subsection \<open>The parts of \<open>bs4\<close> the program uses\<close>

fun strings :: "node \<Rightarrow> string list"
  and strings_list :: "node list \<Rightarrow> string list" where
  \<comment> \<open>the text nodes below a node, in document order\<close>
  "strings (NavigableString s) = [s]"
| "strings (Comment s) = []"
| "strings (Tag nm attrs kids) = strings_list kids"
| "strings_list [] = []"
| "strings_list (n # ns) = strings n @ strings_list ns"

definition get_text :: "string \<Rightarrow> bool \<Rightarrow> node list \<Rightarrow> string" where
  \<comment> \<open>\<open>tag.get_text(separator, strip)\<close> on the contents of \<open>tag\<close>: with \<open>strip\<close>, each text
      node is stripped on its own and left out when nothing remains\<close>
  "get_text separator strp kids =
     join separator (if strp then filter (\<lambda>s. s \<noteq> []) (map strip (strings_list kids))
                     else strings_list kids)"

fun matches :: "string \<Rightarrow> string \<Rightarrow> node \<Rightarrow> bool" where
  \<comment> \<open>the filter of \<open>find_all(name, attr=True)\<close>\<close>
  "matches name attr (Tag nm attrs kids) = (nm = name \<and> map_of attrs attr \<noteq> None)"
| "matches name attr _ = False"

fun find_all_in :: "string \<Rightarrow> string \<Rightarrow> node \<Rightarrow> (nat list \<times> node) list"
  and find_all_from :: "string \<Rightarrow> string \<Rightarrow> nat \<Rightarrow> node list \<Rightarrow> (nat list \<times> node) list" where
  \<comment> \<open>the matching descendants in document order, each with its position: the child
      indices on the way down from the root\<close>
  "find_all_in name attr (Tag nm attrs kids) = find_all_from name attr 0 kids"
| "find_all_in name attr (NavigableString s) = []"
| "find_all_in name attr (Comment s) = []"
| "find_all_from name attr i [] = []"
| "find_all_from name attr i (n # ns) =
     (if matches name attr n then [([i], n)] else [])
     @ map (\<lambda>(p, m). (i # p, m)) (find_all_in name attr n)
     @ find_all_from name attr (Suc i) ns"

definition find_all :: "string \<Rightarrow> string \<Rightarrow> node list \<Rightarrow> (nat list \<times> node) list" where
  \<comment> \<open>\<open>soup.find_all(name, attr=True)\<close>, the soup given by its contents\<close>
  "find_all name attr soup = find_all_from name attr 0 soup"

fun getitem :: "node \<Rightarrow> string \<Rightarrow> exn + string" where
  \<comment> \<open>\<open>tag[key]\<close>\<close>
  "getitem (Tag nm attrs kids) key =
     (case map_of attrs key of None \<Rightarrow> Inl (KeyError key) | Some v \<Rightarrow> Inr v)"
| "getitem _ key = Inl (KeyError key)"

fun get_attr :: "node \<Rightarrow> string \<Rightarrow> string \<Rightarrow> string" where
  \<comment> \<open>\<open>tag.get(key, default)\<close>\<close>
  "get_attr (Tag nm attrs kids) key d = (case map_of attrs key of None \<Rightarrow> d | Some v \<Rightarrow> v)"
| "get_attr _ key d = d"

fun contents :: "node \<Rightarrow> node list" where
  "contents (Tag nm attrs kids) = kids"
| "contents _ = []"

fun replace_with :: "nat list \<Rightarrow> node \<Rightarrow> node list \<Rightarrow> node list" where
  \<comment> \<open>\<open>element.replace_with(new)\<close> for the element at a position of the soup. An element
      whose ancestor was replaced before is no longer in the soup: replacing it changes
      the detached subtree only, and the soup stays as it is.\<close>
  "replace_with [] new soup = soup"
| "replace_with [i] new soup = (if i < length soup then soup[i := new] else soup)"
| "replace_with (i # j # p) new soup =
     (if i < length soup then
        (case soup ! i of
           Tag nm attrs kids \<Rightarrow> soup[i := Tag nm attrs (replace_with (j # p) new kids)]
         | _ \<Rightarrow> soup)
      else soup)"

fun node_at :: "node list \<Rightarrow> nat list \<Rightarrow> node option" where
  \<comment> \<open>the node at a position, if the position exists\<close>
  "node_at soup [] = None"
| "node_at soup [i] = (if i < length soup then Some (soup ! i) else None)"
| "node_at soup (i # j # p) =
     (if i < length soup then node_at (contents (soup ! i)) (j # p) else None)"

section \<open>Python floats\<close>

text \<open>
  A Python \<open>float\<close> is an IEEE 754 binary64 number. The model keeps the exact rational
  value of every float and rounds after each operation to the nearest number with a
  53-bit significand, ties to the even significand, as the hardware does. Values from
  \<open>2 ^ 1024\<close> on (where Python overflows) are outside the model.
\<close>

definition round_half_even :: "rat \<Rightarrow> int" where
  \<comment> \<open>Python's \<open>round(x)\<close> with one argument: the nearest integer, a tie going to the even one\<close>
  "round_half_even x = (let f = \<lfloor>x\<rfloor>; d = x - of_int f in
     if d < 1 / 2 then f else if 1 / 2 < d then f + 1 else if even f then f else f + 1)"

fun exponent_up :: "nat \<Rightarrow> rat \<Rightarrow> int" where
  "exponent_up 0 x = 0"
| "exponent_up (Suc n) x = (if x < 2 then 0 else 1 + exponent_up n (x / 2))"

fun exponent_down :: "nat \<Rightarrow> rat \<Rightarrow> int" where
  "exponent_down 0 x = 0"
| "exponent_down (Suc n) x = (if 1 \<le> x then 0 else exponent_down n (2 * x) - 1)"

definition exponent :: "rat \<Rightarrow> int" where
  \<comment> \<open>the binary exponent of a non-negative value, kept within -1022 .. 1023\<close>
  "exponent x = (if 1 \<le> x then exponent_up 1023 x else exponent_down 1022 x)"

definition binary64 :: "rat \<Rightarrow> rat" where
  \<comment> \<open>the float nearest to \<open>x\<close>\<close>
  "binary64 x = (let u = 2 powi (exponent \<bar>x\<bar> - 52) in of_int (round_half_even (x / u)) * u)"

section \<open>The program\<close>

subsection \<open>\<open>fetch_webpage_python\<close>\<close>

definition resolve :: "env \<Rightarrow> string \<Rightarrow> string \<Rightarrow> exn + string" where
  \<comment> \<open>\<open>if href.startswith('/'): href = urljoin(url, href)\<close>, written four times in the source\<close>
  "resolve env url ref = (if startswith ref ''/'' then urljoin env url ref else Inr ref)"

definition link_annotation :: "env \<Rightarrow> string \<Rightarrow> node \<Rightarrow> exn + string" where
  \<comment> \<open>lines 48-58: the string that replaces an anchor\<close>
  "link_annotation env url link =
     (case getitem link ''href'' of Inl e \<Rightarrow> Inl e | Inr href0 \<Rightarrow>
      case resolve env url href0 of Inl e \<Rightarrow> Inl e | Inr href \<Rightarrow>
        (let link_text = get_text [] True (contents link) in
         Inr (if link_text = [] then ''['' @ href @ '']''
              else link_text @ '' ['' @ href @ '']'')))"

definition img_annotation :: "env \<Rightarrow> string \<Rightarrow> node \<Rightarrow> exn + string" where
  \<comment> \<open>lines 61-71: the string that replaces an image\<close>
  "img_annotation env url img =
     (case getitem img ''src'' of Inl e \<Rightarrow> Inl e | Inr src0 \<Rightarrow>
      case resolve env url src0 of Inl e \<Rightarrow> Inl e | Inr src \<Rightarrow>
        (let alt_text = strip (get_attr img ''alt'' []) in
         Inr (if alt_text = [] then ''[Image] ['' @ src @ '']''
              else ''[Image: '' @ alt_text @ ''] ['' @ src @ '']'')))"

fun replace_each :: "(node \<Rightarrow> exn + string) \<Rightarrow> (nat list \<times> node) list \<Rightarrow> node list \<Rightarrow> exn + node list" where
  \<comment> \<open>\<open>for el in found: ...; el.replace_with(annotation)\<close>. The list \<open>found\<close> was computed
      before the loop; an element is visited before its descendants, so what the body
      reads of it is what \<open>find_all\<close> saw.\<close>
  "replace_each annotation [] soup = Inr soup"
| "replace_each annotation ((p, el) # found) soup =
     (case annotation el of
        Inl e \<Rightarrow> Inl e
      | Inr s \<Rightarrow> replace_each annotation found (replace_with p (NavigableString s) soup))"

definition link_target :: "env \<Rightarrow> string \<Rightarrow> node \<Rightarrow> exn + string" where
  \<comment> \<open>lines 83-87\<close>
  "link_target env url link =
     (case getitem link ''href'' of Inl e \<Rightarrow> Inl e | Inr href \<Rightarrow> resolve env url href)"

definition img_target :: "env \<Rightarrow> string \<Rightarrow> node \<Rightarrow> exn + string" where
  \<comment> \<open>lines 93-97\<close>
  "img_target env url img =
     (case getitem img ''src'' of Inl e \<Rightarrow> Inl e | Inr src \<Rightarrow> resolve env url src)"

fun collect_urls :: "(node \<Rightarrow> exn + string) \<Rightarrow> node list \<Rightarrow> exn + string list" where
  \<comment> \<open>\<open>out = []; for el in found: ...; out.append(target)\<close>\<close>
  "collect_urls target [] = Inr []"
| "collect_urls target (el # found) =
     (case target el of
        Inl e \<Rightarrow> Inl e
      | Inr t \<Rightarrow> (case collect_urls target found of Inl e \<Rightarrow> Inl e | Inr ts \<Rightarrow> Inr (t # ts)))"

definition extract_text :: "env \<Rightarrow> string \<Rightarrow> string \<Rightarrow> exn + string" where
  \<comment> \<open>lines 44-74: parse, annotate the anchors, then the images, and read the text\<close>
  "extract_text env url html =
     (case soup_parse env html of Inl e \<Rightarrow> Inl e | Inr soup \<Rightarrow>
      case replace_each (link_annotation env url) (find_all ''a'' ''href'' soup) soup of
        Inl e \<Rightarrow> Inl e | Inr soup1 \<Rightarrow>
      case replace_each (img_annotation env url) (find_all ''img'' ''src'' soup1) soup1 of
        Inl e \<Rightarrow> Inl e | Inr soup2 \<Rightarrow>
      Inr (get_text '' '' True soup2))"

definition collect_links :: "env \<Rightarrow> string \<Rightarrow> string \<Rightarrow> exn + string list" where
  \<comment> \<open>lines 81-88\<close>
  "collect_links env url html =
     (case soup_parse env html of Inl e \<Rightarrow> Inl e | Inr soup \<Rightarrow>
      collect_urls (link_target env url) (map snd (find_all ''a'' ''href'' soup)))"

definition collect_images :: "env \<Rightarrow> string \<Rightarrow> string \<Rightarrow> exn + string list" where
  \<comment> \<open>lines 91-98\<close>
  "collect_images env url html =
     (case soup_parse env html of Inl e \<Rightarrow> Inl e | Inr soup \<Rightarrow>
      collect_urls (img_target env url) (map snd (find_all ''img'' ''src'' soup)))"

definition headers_get :: "(string \<rightharpoonup> string) \<Rightarrow> string \<Rightarrow> string \<Rightarrow> string" where
  \<comment> \<open>\<open>response.headers.get(key, default)\<close>: the lookup ignores the case of the name\<close>
  "headers_get h key d = (case h (lower key) of None \<Rightarrow> d | Some v \<Rightarrow> v)"

definition fetch_try :: "env \<Rightarrow> string \<Rightarrow> exn + (string option \<times> string list \<times> string list)" where
  \<comment> \<open>the \<open>try\<close> block, lines 14-100. \<open>Document(html, url=url)\<close> only stores its
      arguments and its result is never read. The message of the \<open>HTTPError\<close> of
      \<open>raise_for_status\<close> is printed and dropped.\<close>
  "fetch_try env url =
     (case http_get env url of Inl e \<Rightarrow> Inl e | Inr response \<Rightarrow>
      if 400 \<le> status_code response \<and> status_code response < 600
      then Inl (RequestException ''HTTPError'')
      else
        (let content_type = headers_get (headers response) ''Content-Type'' [] in
         if contains_str ''text/html'' (lower content_type) then
           (let html = body response in
            if html = [] then Inr (None, [], [])
            else
              (case extract_text env url html of Inl e \<Rightarrow> Inl e | Inr article_text_content \<Rightarrow>
               if strip article_text_content = [] then Inr (None, [], [])
               else
                 (case collect_links env url html of Inl e \<Rightarrow> Inl e | Inr links \<Rightarrow>
                  case collect_images env url html of Inl e \<Rightarrow> Inl e | Inr images \<Rightarrow>
                  Inr (Some article_text_content, links, images))))
         else Inl (ValueError (''Expected HTML content but received '' @ content_type
                               @ '' from '' @ url))))"

definition cant_fetch_page :: string where
  "cant_fetch_page = ''Can'' @ [CHR 0x27] @ ''t fetch page''"

definition fetch_webpage_python :: "env \<Rightarrow> string \<Rightarrow> exn + (string option \<times> string list \<times> string list)" where
  \<comment> \<open>the \<open>except\<close> clauses, lines 102-112, around the \<open>try\<close> block\<close>
  "fetch_webpage_python env url =
     (case fetch_try env url of
        Inr r \<Rightarrow> Inr r
      | Inl (RequestException m) \<Rightarrow> Inr (Some cant_fetch_page, [], [])
      | Inl (ValueError m) \<Rightarrow> Inl (ValueError m)
      | Inl e \<Rightarrow> Inl (ValueError (''An unknown error occurred while processing '' @ url
                                  @ '': '' @ str_exn e)))"

subsection \<open>\<open>estimateTokenCount\<close>\<close>

definition estimateTokenCount :: "string \<Rightarrow> int" where
  "estimateTokenCount txt =
     (let charBasedEstimate = binary64 (of_nat (length txt) / 4);
          wordCount = length (split txt);
          wordBasedEstimate = binary64 (binary64 (of_nat wordCount) / (3 / 4))
      in round_half_even (binary64 (binary64 (charBasedEstimate + wordBasedEstimate) / 2)))"

subsection \<open>\<open>get_readable_page\<close>\<close>

datatype json = JString string | JInt int

datatype outcome =
    Response "(string \<times> json) list" int   \<comment> \<open>\<open>jsonify(...)\<close> and the status\<close>
  | Raised exn                                \<comment> \<open>an exception leaves the view function\<close>

definition requested_url :: "env \<Rightarrow> string option \<Rightarrow> outcome + string" where
  \<comment> \<open>lines 128-138; the argument is \<open>request.args.get('url')\<close>. \<open>Inr\<close> is the URL the
      handler goes on with.\<close>
  "requested_url env arg =
     (case arg of
        None \<Rightarrow> Inl (Response [(''error'', JString ''URL parameter is required'')] 400)
      | Some url \<Rightarrow>
          if url = [] then Inl (Response [(''error'', JString ''URL parameter is required'')] 400)
          else
            (case urlparse env url of
               Inl e \<Rightarrow> Inl (Raised e)
             | Inr parsed_url \<Rightarrow>
                 if scheme parsed_url = [] \<or> netloc parsed_url = [] then
                   (if scheme parsed_url = [] \<and> netloc parsed_url \<noteq> [] then Inr (''http://'' @ url)
                    else Inl (Response [(''error'', JString
                      ''Invalid URL format. Please provide a full URL (e.g., http://example.com)'')] 400))
                 else Inr url))"

definition respond :: "env \<Rightarrow> string \<Rightarrow> outcome" where
  \<comment> \<open>lines 141-150\<close>
  "respond env url =
     (case fetch_webpage_python env url of
        Inl e \<Rightarrow> Raised e
      | Inr (content_html, links, images) \<Rightarrow>
          (case content_html of
             None \<Rightarrow> Response [(''error'', JString ''Could not fetch or parse content from the URL'')] 500
           | Some c \<Rightarrow>
               if c = [] then
                 Response [(''error'', JString ''Could not fetch or parse content from the URL'')] 500
               else Response [(''url_requested'', JString url), (''content_html'', JString c),
                              (''length'', JInt (estimateTokenCount c))] 200))"

definition get_readable_page :: "env \<Rightarrow> string option \<Rightarrow> outcome" where
  "get_readable_page env arg =
     (case requested_url env arg of Inl r \<Rightarrow> r | Inr url \<Rightarrow> respond env url)"

section \<open>Notions of the specification\<close>

text \<open>
  What the properties below speak of and the program does not define itself.
\<close>

definition word_count :: "string \<Rightarrow> nat" where
  \<comment> \<open>the number of whitespace-separated words: the characters that are not whitespace
      and stand first or right after a whitespace character\<close>
  "word_count s = length (filter (\<lambda>(a, b). isspace a \<and> \<not> isspace b) (zip (CHR '' '' # s) s))"

definition error_body :: "string \<Rightarrow> (string \<times> json) list" where
  \<comment> \<open>\<open>{"error": msg}\<close>\<close>
  "error_body msg = [(''error'', JString msg)]"

definition host_chars :: string where
  \<comment> \<open>the characters of a plain host name\<close>
  "host_chars = ''abcdefghijklmnopqrstuvwxyzABCDEFGHIJKLMNOPQRSTUVWXYZ0123456789.-''"

definition absolute_url :: "env \<Rightarrow> string \<Rightarrow> bool" where
  \<comment> \<open>an absolute URL: \<open>urlparse\<close> finds both a scheme and a host\<close>
  "absolute_url env u =
     (case urlparse env u of Inl e \<Rightarrow> False | Inr p \<Rightarrow> scheme p \<noteq> [] \<and> netloc p \<noteq> [])"


definition inside :: "nat list \<Rightarrow> nat list \<Rightarrow> bool" where
  \<comment> \<open>position \<open>p\<close> lies strictly below position \<open>q\<close>\<close>
  "inside p q = (length q < length p \<and> take (length q) p = q)"

section \<open>Examples\<close>

text \<open>
  The concrete inputs of the examples: what the network answers, the tree the parser
  builds for each document, and the results of \<open>urljoin\<close>, each given as a table.
\<close>

definition example_env ::
  "(string \<Rightarrow> exn + response) \<Rightarrow> (string \<times> node list) list \<Rightarrow> ((string \<times> string) \<times> string) list \<Rightarrow> env" where
  "example_env get parses joins =
     \<lparr>http_get = get,
      soup_parse = (\<lambda>html. case map_of parses html of
                       Some soup \<Rightarrow> Inr soup | None \<Rightarrow> Inl (OtherException ''no parse given'')),
      urljoin = (\<lambda>base ref. case map_of joins (base, ref) of
                       Some u \<Rightarrow> Inr u | None \<Rightarrow> Inl (OtherException ''no join given'')),
      check_bracketed_netloc = (\<lambda>h. None),
      checknetloc = (\<lambda>h. None)\<rparr>"

definition page :: "int \<Rightarrow> string \<Rightarrow> string \<Rightarrow> string \<Rightarrow> exn + response" where
  \<comment> \<open>a server that answers every URL with the same status, content type and body\<close>
  "page status content_type html url =
     Inr \<lparr>status_code = status, headers = [''content-type'' \<mapsto> content_type], body = html\<rparr>"

definition unreachable_host :: "string \<Rightarrow> exn + response" where
  \<comment> \<open>no connection: \<open>requests.get\<close> raises \<open>ConnectionError\<close>\<close>
  "unreachable_host url = Inl (RequestException ''ConnectionError'')"

definition ex_joins :: "((string \<times> string) \<times> string) list" where
  \<comment> \<open>\<open>urljoin('http://ex.com', ref)\<close> for the references of the examples\<close>
  "ex_joins = [((''http://ex.com'', ''/w''), ''http://ex.com/w''),
               ((''http://ex.com'', ''/x''), ''http://ex.com/x''),
               ((''http://ex.com'', ''/y.png''), ''http://ex.com/y.png'')]"

definition hello_html :: string where
  "hello_html = ''<p>Hello <a href=/w>World</a><img src=/y.png alt=cap></p>''"

definition hello_soup :: "node list" where
  "hello_soup = [Tag ''p'' [] [NavigableString ''Hello '',
                                Tag ''a'' [(''href'', ''/w'')] [NavigableString ''World''],
                                Tag ''img'' [(''src'', ''/y.png''), (''alt'', ''cap'')] []]]"

definition relative_html :: string where
  "relative_html = ''<a href=page.html>x</a>''"

definition relative_soup :: "node list" where
  "relative_soup = [Tag ''a'' [(''href'', ''page.html'')] [NavigableString ''x'']]"

definition bold_html :: string where
  "bold_html = ''<a href=x.html>Hello <b>World</b></a>''"

definition bold_soup :: "node list" where
  "bold_soup = [Tag ''a'' [(''href'', ''x.html'')]
                  [NavigableString ''Hello '', Tag ''b'' [] [NavigableString ''World'']]]"

definition linked_image_html :: string where
  "linked_image_html = ''<a href=/x><img src=/y.png alt=cap></a>''"

definition linked_image_soup :: "node list" where
  "linked_image_soup = [Tag ''a'' [(''href'', ''/x'')]
                          [Tag ''img'' [(''src'', ''/y.png''), (''alt'', ''cap'')] []]]"

definition ex_site :: "string \<Rightarrow> env" where
  \<comment> \<open>the site \<open>http://ex.com\<close>, answering every request with the document \<open>html\<close>\<close>
  "ex_site html = example_env (page 200 ''text/html'' html)
     [(hello_html, hello_soup), (relative_html, relative_soup), (bold_html, bold_soup),
      (linked_image_html, linked_image_soup)] ex_joins"

section \<open>The request handler\<close>

lemma urlparse_netloc_nonempty:
  assumes "urlparse env url = Inr p" and "netloc p \<noteq> []"
  shows "url \<noteq> []"
  using assms by (auto simp: urlparse_def split_scheme_def find_char_def)

lemma urlparse_protocol_relative:
  assumes "host \<noteq> []" and "set host \<subseteq> set host_chars"
  shows "urlparse env (''//'' @ host @ ''/'' @ path) = Inr \<lparr>scheme = [], netloc = host\<rparr>"
proof -
  define rest where "rest = filter (\<lambda>c. c \<notin> set [CHR 0x09, CHR 0x0D, CHR 0x0A]) path"
  have c: "\<forall>c \<in> set host. c \<notin> set [CHR 0x09, CHR 0x0D, CHR 0x0A] \<and> c \<notin> set ''/?#''
             \<and> c \<noteq> CHR ''['' \<and> c \<noteq> CHR '']'' \<and> (of_char c :: nat) < 128"
    using assms(2) by (auto simp: host_chars_def)
  have f: "filter (\<lambda>c. c \<notin> set [CHR 0x09, CHR 0x0D, CHR 0x0A]) host = host"
    using c by (simp add: filter_id_conv)
  have url2: "filter (\<lambda>c. c \<notin> set [CHR 0x09, CHR 0x0D, CHR 0x0A])
                (dropWhile (\<lambda>c. (of_char c :: nat) \<le> 32) (''//'' @ host @ ''/'' @ path))
              = ''//'' @ host @ ''/'' @ rest"
    using f by (simp add: rest_def)
  have s: "split_scheme (''//'' @ host @ ''/'' @ rest) = ([], ''//'' @ host @ ''/'' @ rest)"
    by (simp add: split_scheme_def isascii_alpha_def Let_def)
  have nl: "takeWhile (\<lambda>c. c \<notin> set ''/?#'') (host @ ''/'' @ rest) = host"
    using c by (simp add: takeWhile_append2)
  have br: "CHR ''['' \<notin> set host" "CHR '']'' \<notin> set host"
    using c by auto
  have asc: "isascii host"
    using c by (simp add: isascii_def list_all_iff)
  show ?thesis
    unfolding urlparse_def url2 Let_def s
    using nl br asc by simp
qed

text \<open>
  C9. A request whose \<open>url\<close> parameter is present but empty gets status 400 and the body
  \<open>{"error": "URL parameter is required"}\<close>, the very response of a request without the
  parameter, and not the invalid-format message.
\<close>

theorem empty_url_parameter_is_required:
  "get_readable_page env (Some []) = Response (error_body ''URL parameter is required'') 400
   \<and> get_readable_page env (Some []) = get_readable_page env None"
  by (simp add: get_readable_page_def requested_url_def error_body_def)

lemma estimate_cant_fetch_page: "estimateTokenCount cant_fetch_page = 4"
  by code_simp

lemma fetch_failure_returns_text:
  assumes "http_get env u = Inl (RequestException m)
           \<or> (\<exists>r. http_get env u = Inr r \<and> 400 \<le> status_code r \<and> status_code r < 600)"
  shows "fetch_webpage_python env u = Inr (Some cant_fetch_page, [], [])"
  using assms by (auto simp: fetch_webpage_python_def fetch_try_def)

lemma fetch_failure_answered_200:
  assumes "requested_url env arg = Inr u"
    and "http_get env u = Inl (RequestException m)
           \<or> (\<exists>r. http_get env u = Inr r \<and> 400 \<le> status_code r \<and> status_code r < 600)"
  shows "get_readable_page env arg =
     Response [(''url_requested'', JString u), (''content_html'', JString cant_fetch_page),
               (''length'', JInt 4)] 200"
proof -
  have n: "cant_fetch_page \<noteq> []"
    by (simp add: cant_fetch_page_def)
  show ?thesis
    using assms(1) fetch_failure_returns_text[OF assms(2)] n
    by (simp add: get_readable_page_def respond_def estimate_cant_fetch_page)
qed

text \<open>
  C10. A \<open>url\<close> parameter that parses with an empty scheme and a non-empty netloc (the
  protocol-relative form \<open>//host/path\<close>, see \<open>urlparse_protocol_relative\<close>) is not
  rejected as an invalid URL: the handler puts \<open>http://\<close> in front of it as it is, calls
  the fetcher with the resulting string, \<open>http:////host/path\<close>, and answers with what
  the fetcher returns for that string.
\<close>

theorem protocol_relative_url_prefixed:
  assumes "urlparse env url = Inr p" and "scheme p = []" and "netloc p \<noteq> []"
  shows "requested_url env (Some url) = Inr (''http://'' @ url)
     \<and> get_readable_page env (Some url) =
         (case fetch_webpage_python env (''http://'' @ url) of
            Inl e \<Rightarrow> Raised e
          | Inr (content_html, links, images) \<Rightarrow>
              (case content_html of
                 None \<Rightarrow> Response (error_body ''Could not fetch or parse content from the URL'') 500
               | Some c \<Rightarrow>
                   if c = [] then
                     Response (error_body ''Could not fetch or parse content from the URL'') 500
                   else Response [(''url_requested'', JString (''http://'' @ url)),
                                  (''content_html'', JString c),
                                  (''length'', JInt (estimateTokenCount c))] 200))
     \<and> get_readable_page env (Some url) \<noteq> Response (error_body
           ''Invalid URL format. Please provide a full URL (e.g., http://example.com)'') 400"
proof -
  have u: "requested_url env (Some url) = Inr (''http://'' @ url)"
    using assms urlparse_netloc_nonempty[OF assms(1,3)] by (simp add: requested_url_def)
  then have g: "get_readable_page env (Some url) = respond env (''http://'' @ url)"
    by (simp add: get_readable_page_def)
  have r: "respond env (''http://'' @ url) =
         (case fetch_webpage_python env (''http://'' @ url) of
            Inl e \<Rightarrow> Raised e
          | Inr (content_html, links, images) \<Rightarrow>
              (case content_html of
                 None \<Rightarrow> Response (error_body ''Could not fetch or parse content from the URL'') 500
               | Some c \<Rightarrow>
                   if c = [] then
                     Response (error_body ''Could not fetch or parse content from the URL'') 500
                   else Response [(''url_requested'', JString (''http://'' @ url)),
                                  (''content_html'', JString c),
                                  (''length'', JInt (estimateTokenCount c))] 200))"
    by (simp add: respond_def error_body_def split: sum.splits prod.splits option.splits)
  have ne: "respond env (''http://'' @ url) \<noteq> Response (error_body
           ''Invalid URL format. Please provide a full URL (e.g., http://example.com)'') 400"
    by (simp add: respond_def error_body_def split: sum.splits prod.splits option.splits)
  show ?thesis
    unfolding g using u r ne by (intro conjI)
qed

theorem protocol_relative_url_prefixed_witness:
  "requested_url (example_env unreachable_host [] []) (Some ''//example.com/a'') = Inr ''http:////example.com/a''
   \<and> fetch_webpage_python (example_env unreachable_host [] []) ''http:////example.com/a''
       = Inr (Some cant_fetch_page, [], [])
   \<and> get_readable_page (example_env unreachable_host [] []) (Some ''//example.com/a'')
       = Response [(''url_requested'', JString ''http:////example.com/a''),
                   (''content_html'', JString cant_fetch_page), (''length'', JInt 4)] 200"
proof -
  have p: "urlparse (example_env unreachable_host [] []) ''//example.com/a''
             = Inr \<lparr>scheme = [], netloc = ''example.com''\<rparr>"
    by code_simp
  have f: "fetch_webpage_python (example_env unreachable_host [] []) ''http:////example.com/a''
       = Inr (Some cant_fetch_page, [], [])"
    by (rule fetch_failure_returns_text) (simp add: example_env_def unreachable_host_def)
  have n: "cant_fetch_page \<noteq> []"
    by (simp add: cant_fetch_page_def)
  show ?thesis
    using protocol_relative_url_prefixed[OF p] f n by (simp add: estimate_cant_fetch_page)
qed

text \<open>
  C1. The claim: a request whose GET fails at the transport level or returns a status
  in 4xx/5xx is answered with status 500 and the error body. The code answers it with
  status 200 and the text \<open>Can't fetch page\<close> as the page's content (lemma
  \<open>fetch_failure_answered_200\<close>); here at an unreachable host and at a page answered 404.
\<close>

theorem unreachable_host_answered_200:
  "get_readable_page (example_env unreachable_host [] []) (Some ''http://example.com/'') =
     Response [(''url_requested'', JString ''http://example.com/''),
               (''content_html'', JString cant_fetch_page), (''length'', JInt 4)] 200
   \<and> get_readable_page (example_env (page 404 ''text/html'' ''Not found'') [] []) (Some ''http://example.com/'') =
     Response [(''url_requested'', JString ''http://example.com/''),
               (''content_html'', JString cant_fetch_page), (''length'', JInt 4)] 200"
proof -
  have u: "requested_url (example_env g [] []) (Some ''http://example.com/'') = Inr ''http://example.com/''" for g
    by code_simp
  have a: "http_get (example_env unreachable_host [] []) ''http://example.com/'' = Inl (RequestException ''ConnectionError'')"
    by (simp add: example_env_def unreachable_host_def)
  have b: "\<exists>r. http_get (example_env (page 404 ''text/html'' ''Not found'') [] []) ''http://example.com/'' = Inr r
     \<and> 400 \<le> status_code r \<and> status_code r < 600"
    by (simp add: example_env_def page_def)
  show ?thesis
    using fetch_failure_answered_200[OF u disjI1, OF a] fetch_failure_answered_200[OF u disjI2, OF b]
    by simp
qed

lemma host_only_rejected:
  assumes "url \<noteq> []" and "set url \<subseteq> set host_chars"
  shows "get_readable_page env (Some url) = Response (error_body
     ''Invalid URL format. Please provide a full URL (e.g., http://example.com)'') 400"
proof -
  have c: "\<forall>c \<in> set url. \<not> (of_char c :: nat) \<le> 32 \<and> c \<notin> set [CHR 0x09, CHR 0x0D, CHR 0x0A] \<and> c \<noteq> CHR '':'' \<and> c \<noteq> CHR ''/''"
    using assms(2) by (auto simp: host_chars_def)
  have d: "dropWhile (\<lambda>c. (of_char c :: nat) \<le> 32) url = url"
    using c assms(1) by (cases url) auto
  have f: "filter (\<lambda>c. c \<notin> set [CHR 0x09, CHR 0x0D, CHR 0x0A]) url = url"
    using c by (simp add: filter_id_conv)
  have s: "split_scheme url = ([], url)"
    using c by (auto simp: split_scheme_def find_char_def)
  have t: "take 2 url \<noteq> ''//''"
    using c assms(1) by (cases url) auto
  have "urlparse env url = Inr \<lparr>scheme = [], netloc = []\<rparr>"
    using t by (simp add: urlparse_def d f s del: set_simps)
  then show ?thesis
    using assms(1) by (simp add: get_readable_page_def requested_url_def error_body_def)
qed

text \<open>
  C2. The claim: a host-only \<open>url\<close> parameter without scheme, such as \<open>example.com\<close>,
  gets \<open>http://\<close> prepended and is fetched. The code rejects it with status 400 and the
  invalid-format message, as it does every string of host-name characters (lemma
  \<open>host_only_rejected\<close>): \<open>urlparse\<close> finds a netloc only after \<open>//\<close>.
\<close>

theorem host_only_url_rejected:
  "get_readable_page (example_env unreachable_host [] []) (Some ''example.com'') = Response (error_body
     ''Invalid URL format. Please provide a full URL (e.g., http://example.com)'') 400"
  by (rule host_only_rejected) (simp_all add: host_chars_def)

text \<open>
  C3, as amended. When the fetch succeeds with a status outside 4xx/5xx and the
  \<open>Content-Type\<close> header does not contain \<open>text/html\<close> (case-insensitively), the
  fetcher raises \<open>ValueError\<close> with the message "Expected HTML content but received
  (content type) from (url)", and the handler does not catch it: the view function
  returns no JSON body, the exception leaves it.
\<close>

theorem non_html_content_type_raises:
  assumes "requested_url env arg = Inr u" and "http_get env u = Inr r"
    and "status_code r < 400 \<or> 600 \<le> status_code r"
    and "\<not> contains_str ''text/html'' (lower (headers_get (headers r) ''Content-Type'' []))"
  shows "get_readable_page env arg = Raised (ValueError (''Expected HTML content but received ''
           @ headers_get (headers r) ''Content-Type'' [] @ '' from '' @ u))"
  using assms by (auto simp: get_readable_page_def respond_def fetch_webpage_python_def fetch_try_def)

theorem non_html_content_type_raises_witness:
  "get_readable_page (example_env (page 200 ''application/json'' ''{}'') [] []) (Some ''http://example.com/data'')
    = Raised (ValueError ''Expected HTML content but received application/json from http://example.com/data'')"
proof -
  let ?env = "example_env (page 200 ''application/json'' ''{}'') [] []"
  let ?r = "\<lparr>status_code = 200, headers = [''content-type'' \<mapsto> ''application/json''], body = ''{}''\<rparr>"
  have u: "requested_url ?env (Some ''http://example.com/data'') = Inr ''http://example.com/data''"
    by code_simp
  have g: "http_get ?env ''http://example.com/data'' = Inr ?r"
    by (simp add: example_env_def page_def)
  have s: "status_code ?r < 400 \<or> 600 \<le> status_code ?r" by simp
  have h: "headers_get (headers ?r) ''Content-Type'' [] = ''application/json''"
    by code_simp
  have c: "\<not> contains_str ''text/html'' (lower (headers_get (headers ?r) ''Content-Type'' []))"
    unfolding h by code_simp
  show ?thesis
    using non_html_content_type_raises[OF u g s c] unfolding h by simp
qed

text \<open>
  C3, as stated, fails: a page served as \<open>application/json\<close> with status 200 is not
  answered with status 500 and the JSON error body.
\<close>

theorem json_content_type_counterexample:
  "get_readable_page (example_env (page 200 ''application/json'' ''{}'') [] []) (Some ''http://example.com/data'')
    \<noteq> Response (error_body ''Could not fetch or parse content from the URL'') 500"
  by code_simp

text \<open>
  C8. When the page is fetched as HTML (status outside 4xx/5xx, content type containing
  \<open>text/html\<close>) and its body is empty or the text extracted from it is empty or
  whitespace only, the handler answers with status 500 and the body
  \<open>{"error": "Could not fetch or parse content from the URL"}\<close>.
\<close>

theorem empty_text_gives_500:
  assumes "requested_url env arg = Inr u" and "http_get env u = Inr r"
    and "status_code r < 400 \<or> 600 \<le> status_code r"
    and "contains_str ''text/html'' (lower (headers_get (headers r) ''Content-Type'' []))"
    and "body r = [] \<or> (\<exists>t. extract_text env u (body r) = Inr t \<and> strip t = [])"
  shows "get_readable_page env arg = Response (error_body ''Could not fetch or parse content from the URL'') 500"
proof -
  have "fetch_try env u = Inr (None, [], [])"
    using assms(2-5) by (auto simp: fetch_try_def Let_def)
  then have "fetch_webpage_python env u = Inr (None, [], [])"
    by (simp add: fetch_webpage_python_def)
  then show ?thesis
    using assms(1) by (simp add: get_readable_page_def respond_def error_body_def)
qed

theorem empty_text_gives_500_witness:
  "get_readable_page (example_env (page 200 ''text/html; charset=utf-8'' ''<html></html>'') [(''<html></html>'', [Tag ''html'' [] []])] [])
     (Some ''http://example.com/'')
    = Response (error_body ''Could not fetch or parse content from the URL'') 500"
proof -
  let ?env = "example_env (page 200 ''text/html; charset=utf-8'' ''<html></html>'') [(''<html></html>'', [Tag ''html'' [] []])] []"
  let ?r = "\<lparr>status_code = 200, headers = [''content-type'' \<mapsto> ''text/html; charset=utf-8''], body = ''<html></html>''\<rparr>"
  have u: "requested_url ?env (Some ''http://example.com/'') = Inr ''http://example.com/''"
    by code_simp
  have g: "http_get ?env ''http://example.com/'' = Inr ?r"
    by (simp add: example_env_def page_def)
  have s: "status_code ?r < 400 \<or> 600 \<le> status_code ?r" by simp
  have c: "contains_str ''text/html'' (lower (headers_get (headers ?r) ''Content-Type'' []))"
    by code_simp
  have e: "extract_text ?env ''http://example.com/'' ''<html></html>'' = Inr []"
    by code_simp
  have t: "body ?r = [] \<or> (\<exists>t. extract_text ?env ''http://example.com/'' (body ?r) = Inr t \<and> strip t = [])"
    using e by (simp add: strip_def)
  show ?thesis
    using empty_text_gives_500[OF u g s c t] by simp
qed

section \<open>The document tree\<close>

lemma inside_Cons [simp]: "inside (i # p) (k # q) = (i = k \<and> inside p q)"
  by (auto simp: inside_def)

lemma inside_Nil [simp]: "inside p [] = (p \<noteq> [])" "\<not> inside [] q"
  by (auto simp: inside_def)

lemma node_at_Nil [simp]: "node_at [] p = None"
proof (cases p)
  case Nil
  then show ?thesis by simp
next
  case (Cons i p')
  then show ?thesis by (cases p') auto
qed



















section \<open>Links and images\<close>

lemma collect_targets:
  "collect_urls target els = Inr ts \<Longrightarrow> list_all2 (\<lambda>el t. target el = Inr t) els ts"
proof (induction els arbitrary: ts)
  case Nil
  then show ?case by simp
next
  case (Cons el els)
  then show ?case by (auto split: sum.splits)
qed

lemma collect_found:
  "collect_urls target (map snd found) = Inr ts \<Longrightarrow> t \<in> set ts
    \<Longrightarrow> \<exists>p el. (p, el) \<in> set found \<and> target el = Inr t"
proof (induction found arbitrary: ts)
  case Nil
  then show ?case by simp
next
  case (Cons pe found)
  obtain p el where pe: "pe = (p, el)" by (cases pe)
  obtain t0 ts0 where t0: "target el = Inr t0" and ts0: "collect_urls target (map snd found) = Inr ts0"
    and ts: "ts = t0 # ts0"
    using Cons.prems(1) pe by (auto split: sum.splits)
  show ?case
  proof cases
    assume "t = t0"
    then show ?thesis using t0 pe by auto
  next
    assume "t \<noteq> t0"
    then have "t \<in> set ts0" using Cons.prems(2) ts by simp
    then show ?thesis using Cons.IH[OF ts0] by auto
  qed
qed

lemma resolve_cases:
  "resolve env url ref = Inr t \<longleftrightarrow> (if startswith ref ''/'' then urljoin env url ref = Inr t else t = ref)"
  by (auto simp: resolve_def)

lemma fetch_try_lists:
  assumes "fetch_try env url = Inr (Some t, links, images)"
    and "http_get env url = Inr r" and "soup_parse env (body r) = Inr soup"
  shows "collect_urls (link_target env url) (map snd (find_all ''a'' ''href'' soup)) = Inr links"
    and "collect_urls (img_target env url) (map snd (find_all ''img'' ''src'' soup)) = Inr images"
  using assms
  by (auto simp: fetch_try_def Let_def collect_links_def collect_images_def
           split: if_splits sum.splits)

lemma lists_come_from_document:
  assumes "fetch_webpage_python env url = Inr (Some t, links, images)"
    and "http_get env url = Inr r" and "soup_parse env (body r) = Inr soup"
  shows "(\<forall>l \<in> set links. \<exists>p el href. (p, el) \<in> set (find_all ''a'' ''href'' soup)
             \<and> getitem el ''href'' = Inr href
             \<and> (if startswith href ''/'' then urljoin env url href = Inr l else l = href))
       \<and> (\<forall>i \<in> set images. \<exists>p el src. (p, el) \<in> set (find_all ''img'' ''src'' soup)
             \<and> getitem el ''src'' = Inr src
             \<and> (if startswith src ''/'' then urljoin env url src = Inr i else i = src))"
proof -
  consider (ok) "fetch_try env url = Inr (Some t, links, images)"
    | (failed) "links = []" "images = []"
    using assms(1)
    by (auto simp: fetch_webpage_python_def split: sum.splits exn.splits)
  then show ?thesis
  proof cases
    case ok
    note lists = fetch_try_lists[OF ok assms(2,3)]
    have "\<exists>p el href. (p, el) \<in> set (find_all ''a'' ''href'' soup)
             \<and> getitem el ''href'' = Inr href
             \<and> (if startswith href ''/'' then urljoin env url href = Inr l else l = href)"
      if lin: "l \<in> set links" for l
    proof -
      obtain p el where mem: "(p, el) \<in> set (find_all ''a'' ''href'' soup)"
        and tgt: "link_target env url el = Inr l"
        using collect_found[OF lists(1) lin] by blast
      obtain href where "getitem el ''href'' = Inr href" and "resolve env url href = Inr l"
        using tgt by (auto simp: link_target_def split: sum.splits)
      then show ?thesis using mem resolve_cases by blast
    qed
    moreover have "\<exists>p el src. (p, el) \<in> set (find_all ''img'' ''src'' soup)
             \<and> getitem el ''src'' = Inr src
             \<and> (if startswith src ''/'' then urljoin env url src = Inr i else i = src)"
      if iin: "i \<in> set images" for i
    proof -
      obtain p el where mem: "(p, el) \<in> set (find_all ''img'' ''src'' soup)"
        and tgt: "img_target env url el = Inr i"
        using collect_found[OF lists(2) iin] by blast
      obtain src where "getitem el ''src'' = Inr src" and "resolve env url src = Inr i"
        using tgt by (auto simp: img_target_def split: sum.splits)
      then show ?thesis using mem resolve_cases by blast
    qed
    ultimately show ?thesis by blast
  next
    case failed
    then show ?thesis by simp
  qed
qed

lemma hello_fetch:
  "fetch_webpage_python (ex_site hello_html) ''http://ex.com''
     = Inr (Some ''Hello World [http://ex.com/w] [Image: cap] [http://ex.com/y.png]'',
            [''http://ex.com/w''], [''http://ex.com/y.png''])"
  by code_simp

text \<open>
  C4, as amended. Every string of the \<open>links\<close> list returned by \<open>fetch_webpage_python\<close>
  comes from an anchor with an \<open>href\<close> of the document: it is \<open>urljoin(url, href)\<close> when
  the \<open>href\<close> starts with \<open>/\<close>, and the \<open>href\<close> itself, unchanged, otherwise. So,
  provided \<open>urljoin\<close> returns absolute URLs for the references that start with \<open>/\<close>,
  the string is an absolute URL exactly when the \<open>href\<close> starts with \<open>/\<close> or is itself
  absolute. The same holds for the \<open>images\<close> list and the \<open>src\<close> of the images.
\<close>

theorem links_and_images_resolved:
  assumes "fetch_webpage_python env url = Inr (Some t, links, images)"
    and "http_get env url = Inr r" and "soup_parse env (body r) = Inr soup"
    and "\<forall>ref u. startswith ref ''/'' \<longrightarrow> urljoin env url ref = Inr u \<longrightarrow> absolute_url env u"
  shows "(\<forall>l \<in> set links. \<exists>p el href. (p, el) \<in> set (find_all ''a'' ''href'' soup)
             \<and> getitem el ''href'' = Inr href
             \<and> (if startswith href ''/'' then urljoin env url href = Inr l else l = href)
             \<and> (absolute_url env l \<longleftrightarrow> startswith href ''/'' \<or> absolute_url env href))
       \<and> (\<forall>i \<in> set images. \<exists>p el src. (p, el) \<in> set (find_all ''img'' ''src'' soup)
             \<and> getitem el ''src'' = Inr src
             \<and> (if startswith src ''/'' then urljoin env url src = Inr i else i = src)
             \<and> (absolute_url env i \<longleftrightarrow> startswith src ''/'' \<or> absolute_url env src))"
proof -
  have abs: "absolute_url env u \<longleftrightarrow> startswith ref ''/'' \<or> absolute_url env ref"
    if "if startswith ref ''/'' then urljoin env url ref = Inr u else u = ref" for ref u
  proof cases
    assume "startswith ref ''/''"
    then show ?thesis using that assms(4) by simp
  next
    assume "\<not> startswith ref ''/''"
    then show ?thesis using that by simp
  qed
  show ?thesis
    using lists_come_from_document[OF assms(1-3)] abs by meson
qed

theorem links_and_images_resolved_witness:
  "fetch_webpage_python (ex_site hello_html) ''http://ex.com''
     = Inr (Some ''Hello World [http://ex.com/w] [Image: cap] [http://ex.com/y.png]'',
            [''http://ex.com/w''], [''http://ex.com/y.png''])
   \<and> find_all ''a'' ''href'' hello_soup
       = [([0, 1], Tag ''a'' [(''href'', ''/w'')] [NavigableString ''World''])]
   \<and> urljoin (ex_site hello_html) ''http://ex.com'' ''/w'' = Inr ''http://ex.com/w''
   \<and> absolute_url (ex_site hello_html) ''http://ex.com/w''
   \<and> find_all ''img'' ''src'' hello_soup
       = [([0, 2], Tag ''img'' [(''src'', ''/y.png''), (''alt'', ''cap'')] [])]
   \<and> urljoin (ex_site hello_html) ''http://ex.com'' ''/y.png'' = Inr ''http://ex.com/y.png''
   \<and> absolute_url (ex_site hello_html) ''http://ex.com/y.png''"
proof -
  let ?env = "ex_site hello_html"
  have g: "http_get ?env ''http://ex.com''
            = Inr \<lparr>status_code = 200, headers = [''content-type'' \<mapsto> ''text/html''], body = hello_html\<rparr>"
    by (simp add: ex_site_def example_env_def page_def)
  have s: "soup_parse ?env
             (body \<lparr>status_code = 200, headers = [''content-type'' \<mapsto> ''text/html''], body = hello_html\<rparr>)
            = Inr hello_soup"
    by (simp add: ex_site_def example_env_def)
  have j: "u \<in> {''http://ex.com/w'', ''http://ex.com/x'', ''http://ex.com/y.png''}"
    if "urljoin ?env ''http://ex.com'' ref = Inr u" for ref u
    using that
    by (auto simp: ex_site_def example_env_def ex_joins_def split: option.splits if_splits)
  have a3: "absolute_url ?env ''http://ex.com/w''" "absolute_url ?env ''http://ex.com/x''"
    "absolute_url ?env ''http://ex.com/y.png''"
    by code_simp+
  have h4: "\<forall>ref u. startswith ref ''/'' \<longrightarrow> urljoin ?env ''http://ex.com'' ref = Inr u
              \<longrightarrow> absolute_url ?env u"
    using j a3 by blast
  have fa: "find_all ''a'' ''href'' hello_soup
       = [([0, 1], Tag ''a'' [(''href'', ''/w'')] [NavigableString ''World''])]"
    and fi: "find_all ''img'' ''src'' hello_soup
       = [([0, 2], Tag ''img'' [(''src'', ''/y.png''), (''alt'', ''cap'')] [])]"
    by code_simp+
  note r = links_and_images_resolved[OF hello_fetch g s h4]
  have l: "''http://ex.com/w'' \<in> set [''http://ex.com/w'']"
    and i: "''http://ex.com/y.png'' \<in> set [''http://ex.com/y.png'']"
    by simp_all
  have sw: "startswith ''/w'' ''/''" "startswith ''/y.png'' ''/''"
    by (simp_all add: startswith_def)
  have "urljoin ?env ''http://ex.com'' ''/w'' = Inr ''http://ex.com/w''
        \<and> absolute_url ?env ''http://ex.com/w''"
    using r[THEN conjunct1, THEN bspec, OF l] sw unfolding fa by auto
  moreover have "urljoin ?env ''http://ex.com'' ''/y.png'' = Inr ''http://ex.com/y.png''
        \<and> absolute_url ?env ''http://ex.com/y.png''"
    using r[THEN conjunct2, THEN bspec, OF i] sw unfolding fi by auto
  ultimately show ?thesis
    using hello_fetch fa fi by simp
qed

text \<open>
  C4, as stated, fails: the document \<open><a href=page.html>x</a>\<close> is fetched successfully
  and its \<open>links\<close> list holds \<open>page.html\<close>, which has neither scheme nor host.
\<close>

theorem relative_href_counterexample:
  "fetch_webpage_python (ex_site relative_html) ''http://ex.com''
     = Inr (Some ''x [page.html]'', [''page.html''], [])
   \<and> \<not> absolute_url (ex_site relative_html) ''page.html''"
  by code_simp

section \<open>The annotator\<close>










section \<open>The token estimate\<close>

lemma round_half_even_near: "\<bar>of_int (round_half_even y) - y\<bar> \<le> 1 / 2"
proof -
  have "of_int \<lfloor>y\<rfloor> \<le> y" and "y < of_int \<lfloor>y\<rfloor> + 1"
    by linarith+
  then show ?thesis
    by (auto simp: round_half_even_def Let_def)
qed

lemma round_half_even_tie:
  "\<bar>of_int (round_half_even y) - y\<bar> = 1 / 2 \<Longrightarrow> even (round_half_even y)"
proof -
  have "of_int \<lfloor>y\<rfloor> \<le> y" and "y < of_int \<lfloor>y\<rfloor> + 1"
    by linarith+
  then show "\<bar>of_int (round_half_even y) - y\<bar> = 1 / 2 \<Longrightarrow> even (round_half_even y)"
    by (auto simp: round_half_even_def Let_def split: if_splits)
qed

lemma round_half_even_of_int [simp]: "round_half_even (of_int n) = n"
  by (simp add: round_half_even_def)

lemma round_half_even_unique:
  assumes "of_int r - 1 / 2 < y" and "y < of_int r + 1 / 2"
  shows "round_half_even y = r"
proof -
  have "\<lfloor>y\<rfloor> = r \<or> \<lfloor>y\<rfloor> = r - 1"
    using assms by (auto simp: floor_eq_iff)
  then show ?thesis
  proof
    assume "\<lfloor>y\<rfloor> = r"
    then show ?thesis using assms by (simp add: round_half_even_def Let_def)
  next
    assume "\<lfloor>y\<rfloor> = r - 1"
    then show ?thesis using assms by (simp add: round_half_even_def Let_def)
  qed
qed

lemma exponent_up_bounds:
  "1 \<le> x \<Longrightarrow> x < 2 ^ Suc n \<Longrightarrow>
     2 powi (exponent_up n x) \<le> x \<and> x < 2 powi (exponent_up n x + 1) \<and> 0 \<le> exponent_up n x"
proof (induction n arbitrary: x)
  case 0
  then show ?case by simp
next
  case (Suc n)
  show ?case
  proof cases
    assume "x < 2"
    then show ?thesis using Suc.prems by simp
  next
    assume a: "\<not> x < 2"
    then have "1 \<le> x / 2" and "x / 2 < 2 ^ Suc n"
      using Suc.prems by simp_all
    from Suc.IH[OF this] show ?thesis
      using a by (simp add: power_int_add field_simps)
  qed
qed

lemma exponent_down_one: "1 \<le> y \<Longrightarrow> exponent_down n y = 0"
  by (cases n) simp_all

lemma exponent_down_bounds:
  "0 < x \<Longrightarrow> x < 1 \<Longrightarrow> 1 \<le> x * 2 ^ n \<Longrightarrow>
     2 powi (exponent_down n x) \<le> x \<and> x < 2 powi (exponent_down n x + 1)"
proof (induction n arbitrary: x)
  case 0
  then show ?case by simp
next
  case (Suc n)
  show ?case
  proof cases
    assume a: "1 \<le> 2 * x"
    then show ?thesis using Suc.prems by (simp add: exponent_down_one)
  next
    assume a: "\<not> 1 \<le> 2 * x"
    then have "0 < 2 * x" and "2 * x < 1" and "1 \<le> 2 * x * 2 ^ n"
      using Suc.prems by (simp_all add: mult.assoc mult.left_commute)
    from Suc.IH[OF this] show ?thesis
      using Suc.prems(2) by (simp add: power_int_diff power_int_add field_simps)
  qed
qed

lemma exponent_bounds:
  assumes "2 powi (- 1022) \<le> x" and "x < 2 ^ 1024"
  shows "2 powi (exponent x) \<le> x \<and> x < 2 powi (exponent x + 1)"
proof cases
  assume "1 \<le> x"
  then show ?thesis
    using exponent_up_bounds[of x 1023] assms(2) by (simp add: exponent_def)
next
  assume a: "\<not> 1 \<le> x"
  have "0 < x" using assms(1) zero_less_power_int[of "2::rat" "- 1022"] by linarith
  moreover have "1 \<le> x * 2 ^ 1022"
    using assms(1) by (simp add: power_int_minus field_simps)
  ultimately show ?thesis
    using exponent_down_bounds[of x 1022] a by (simp add: exponent_def)
qed


lemma binary64_zero [simp]: "binary64 0 = 0"
  using round_half_even_of_int[of 0] by (simp add: binary64_def)

lemma pow2_less_exp:
  assumes "(2::rat) powi a < 2 powi b"
  shows "a < b"
proof (rule ccontr)
  assume "\<not> a < b"
  then have "b \<le> a" by simp
  then have "(2::rat) powi b \<le> 2 powi a"
    by (intro power_int_increasing) simp_all
  then show False using assms by simp
qed

lemma binary64_error:
  assumes "2 powi (- 1022) \<le> x" and "x < 2 ^ 1024"
  shows "\<bar>binary64 x - x\<bar> \<le> x / 2 ^ 53"
proof -
  define e where "e = exponent x"
  define u :: rat where "u = 2 powi (e - 52)"
  have pos: "0 < x" using assms(1) zero_less_power_int[of "2::rat" "- 1022"] by linarith
  have u: "0 < u" by (simp add: u_def)
  have lo: "2 powi e \<le> x"
    using exponent_bounds[OF assms] by (simp add: e_def)
  have "binary64 x = of_int (round_half_even (x / u)) * u"
    using pos by (simp add: binary64_def Let_def u_def e_def)
  then have "binary64 x - x = (of_int (round_half_even (x / u)) - x / u) * u"
    using u by (simp add: field_simps)
  then have "\<bar>binary64 x - x\<bar> = \<bar>of_int (round_half_even (x / u)) - x / u\<bar> * u"
    using u by (simp add: abs_mult)
  also have "\<dots> \<le> (1 / 2) * u"
    using round_half_even_near[of "x / u"] u by (intro mult_right_mono) simp_all
  also have "(1 / 2) * u = 2 powi e / 2 ^ 53"
    by (simp add: u_def power_int_diff)
  also have "\<dots> \<le> x / 2 ^ 53"
    using lo by (simp add: divide_right_mono)
  finally show ?thesis .
qed

lemma binary64_exact:
  assumes "x = of_nat m / 2 ^ j" and "m < 2 ^ 53" and "j \<le> 1000"
  shows "binary64 x = x"
proof cases
  assume "m = 0"
  then show ?thesis using assms(1) by simp
next
  assume m: "m \<noteq> 0"
  define e where "e = exponent x"
  define u :: rat where "u = 2 powi (e - 52)"
  have xj: "x = of_nat m * 2 powi (- int j)"
    using assms(1) by (simp add: power_int_minus field_simps)
  have one: "(1::rat) \<le> of_nat m" using m by simp
  have m53: "(of_nat m :: rat) < 2 powi 53"
    using assms(2) by (metis of_nat_less_iff of_nat_numeral of_nat_power power_int_numeral)
  have "(2::rat) powi (- 1022) \<le> 2 powi (- int j)"
    using assms(3) by (intro power_int_increasing) simp_all
  also have "\<dots> = 1 * 2 powi (- int j)" by simp
  also have "\<dots> \<le> of_nat m * 2 powi (- int j)"
    using one by (intro mult_right_mono) simp_all
  finally have lo: "2 powi (- 1022) \<le> x"
    using xj by simp
  have "x < 2 powi 53 * 2 powi (- int j)"
    unfolding xj using m53 by (intro mult_strict_right_mono) simp_all
  then have xhi: "x < 2 powi (53 - int j)"
    by (simp add: power_int_diff power_int_minus field_simps)
  also have "(2::rat) powi (53 - int j) \<le> 2 powi 1024"
    by (intro power_int_increasing) simp_all
  finally have hi: "x < 2 ^ 1024" by simp
  have "2 powi e \<le> x"
    using exponent_bounds[OF lo hi] by (simp add: e_def)
  then have "(2::rat) powi e < 2 powi (53 - int j)"
    using xhi by simp
  then have e: "e < 53 - int j"
    by (rule pow2_less_exp)
  define k where "k = nat (52 - int j - e)"
  have k: "int k = 52 - int j - e"
    using e by (simp add: k_def)
  have "x / u = of_nat m * (2 powi (- int j) / 2 powi (e - 52))"
    by (simp add: xj u_def)
  also have "2 powi (- int j) / 2 powi (e - 52) = (2::rat) powi (int k)"
  proof -
    have "int k = (- int j) - (e - 52)" using k by simp
    then have "(2::rat) powi (int k) = 2 powi ((- int j) - (e - 52))" by simp
    also have "\<dots> = 2 powi (- int j) / 2 powi (e - 52)"
      by (rule power_int_diff) simp
    finally show ?thesis by simp
  qed
  finally have "x / u = of_int (int m * 2 ^ k)"
    by simp
  then have "round_half_even (x / u) = int m * 2 ^ k"
    by (simp only: round_half_even_of_int)
  moreover have "0 < x"
    using lo zero_less_power_int[of "2::rat" "- 1022"] by linarith
  ultimately have "binary64 x = of_int (int m * 2 ^ k) * u"
    by (simp add: binary64_def Let_def u_def e_def)
  also have "\<dots> = x / u * u"
    using \<open>x / u = of_int (int m * 2 ^ k)\<close> by simp
  also have "\<dots> = x"
    by (simp add: u_def)
  finally show ?thesis .
qed

lemma length_split_from:
  "(w = [] \<longleftrightarrow> isspace p) \<Longrightarrow>
     length (split_from w cs) = (if w = [] then 0 else 1)
        + length (filter (\<lambda>(a, b). isspace a \<and> \<not> isspace b) (zip (p # cs) cs))"
proof (induction cs arbitrary: w p)
  case Nil
  then show ?case by simp
next
  case (Cons c cs)
  show ?case
  proof cases
    assume c: "isspace c"
    have "length (split_from [] cs) = length (filter (\<lambda>(a, b). isspace a \<and> \<not> isspace b) (zip (c # cs) cs))"
      using Cons.IH[of "[]" c] c by simp
    then show ?thesis using c by simp
  next
    assume c: "\<not> isspace c"
    have "length (split_from (c # w) cs) = 1 + length (filter (\<lambda>(a, b). isspace a \<and> \<not> isspace b) (zip (c # cs) cs))"
      using Cons.IH[of "c # w" c] c by simp
    then show ?thesis using c Cons.prems by auto
  qed
qed

lemma length_split: "length (split s) = word_count s"
proof -
  have "isspace (CHR '' '')" by (simp add: isspace_def)
  then show ?thesis
    using length_split_from[of "[]" "CHR '' ''" s] by (simp add: split_def word_count_def)
qed

lemma word_count_le: "word_count s \<le> length s"
proof -
  have "word_count s \<le> length (zip (CHR '' '' # s) s)"
    unfolding word_count_def by (rule length_filter_le)
  then show ?thesis by simp
qed

lemma binary64_error_small:
  assumes "1 / 4 \<le> x" and "x < 2 ^ 42"
  shows "\<bar>binary64 x - x\<bar> \<le> 1 / 2 ^ 11"
proof -
  have "(2::rat) powi (- 1022) \<le> 2 powi (- 2)"
    by (intro power_int_increasing) simp_all
  also have "\<dots> = 1 / 4" by (simp add: power_int_minus)
  finally have lo: "2 powi (- 1022) \<le> x" using assms(1) by simp
  have "(2::rat) ^ 42 < 2 ^ 1024"
    by (rule power_strict_increasing) simp_all
  then have hi: "x < 2 ^ 1024" using assms(2) by (rule less_trans[rotated])
  have "\<bar>binary64 x - x\<bar> \<le> x / 2 ^ 53"
    by (rule binary64_error[OF lo hi])
  also have "\<dots> \<le> 2 ^ 42 / 2 ^ 53"
    using assms(2) by (intro divide_right_mono) simp_all
  also have "\<dots> = 1 / 2 ^ 11" by simp
  finally show ?thesis .
qed

lemma round_half_even_stable:
  assumes "x = of_int N / 24" and "\<not> 3 dvd N" and "\<bar>h - x\<bar> < 1 / 24"
  shows "round_half_even h = round_half_even x"
proof -
  define r where "r = round_half_even x"
  have "\<bar>of_int r - x\<bar> \<le> 1 / 2"
    unfolding r_def by (rule round_half_even_near)
  then have "\<bar>of_int (24 * r - N) :: rat\<bar> \<le> of_int 12"
    unfolding assms(1) by (simp add: field_simps abs_le_iff)
  then have "\<bar>24 * r - N\<bar> \<le> 12"
    by (simp only: of_int_le_iff flip: of_int_abs)
  moreover have "24 * r - N \<noteq> 12" and "24 * r - N \<noteq> - 12"
    using assms(2) by presburger+
  ultimately have "\<bar>24 * r - N\<bar> \<le> 11"
    by linarith
  then have "\<bar>of_int (24 * r - N) :: rat\<bar> \<le> of_int 11"
    by (simp only: of_int_le_iff flip: of_int_abs)
  then have "\<bar>of_int r - x\<bar> \<le> 11 / 24"
    unfolding assms(1) by (simp add: field_simps abs_le_iff)
  then have "of_int r - 1 / 2 < h" and "h < of_int r + 1 / 2"
    using assms(3) by linarith+
  then show ?thesis
    unfolding r_def[symmetric] by (rule round_half_even_unique)
qed

lemma estimate_exact_case:
  assumes "length str < 2 ^ 40" and "word_count str = 3 * q"
  shows "estimateTokenCount str
    = round_half_even ((of_nat (length str) / 4 + of_nat (word_count str) / (3 / 4)) / 2)"
proof -
  define L where "L = length str"
  have q: "q \<le> L" using word_count_le[of str] assms(2) by (simp add: L_def)
  have L: "L < 2 ^ 40" using assms(1) by (simp add: L_def)
  have "(2::nat) ^ 40 * 32 \<le> 2 ^ 53" by simp
  then have big: "L + 16 * q < 2 ^ 53" and L53: "L < 2 ^ 53" and W53: "3 * q < 2 ^ 53" and q53: "4 * q < 2 ^ 53"
    using L q by linarith+
  have a4: "(of_nat L :: rat) / 4 = of_nat L / 2 ^ 2" by simp
  have a: "binary64 (of_nat L / 4) = of_nat L / 4"
    unfolding a4 by (rule binary64_exact[OF refl L53]) simp
  have "binary64 (of_nat (3 * q) / 2 ^ 0) = of_nat (3 * q) / 2 ^ 0"
    by (rule binary64_exact[OF refl W53]) simp
  then have w: "binary64 (of_nat (3 * q)) = of_nat (3 * q)" by simp
  have "binary64 (of_nat (4 * q) / 2 ^ 0) = of_nat (4 * q) / 2 ^ 0"
    by (rule binary64_exact[OF refl q53]) simp
  moreover have "(of_nat (3 * q) :: rat) / (3 / 4) = of_nat (4 * q) / 2 ^ 0"
    by simp
  ultimately have b: "binary64 (of_nat (3 * q) / (3 / 4)) = of_nat (4 * q)"
    by simp
  have eq1: "(of_nat L :: rat) / 4 + of_nat (4 * q) = of_nat (L + 16 * q) / 2 ^ 2"
    by simp
  have s: "binary64 (of_nat L / 4 + of_nat (4 * q)) = of_nat (L + 16 * q) / 2 ^ 2"
    unfolding eq1 by (rule binary64_exact[OF refl big]) simp
  have eq2: "(of_nat (L + 16 * q) :: rat) / 2 ^ 2 / 2 = of_nat (L + 16 * q) / 2 ^ 3"
    by simp
  have h: "binary64 (of_nat (L + 16 * q) / 2 ^ 2 / 2) = of_nat (L + 16 * q) / 2 ^ 3"
    unfolding eq2 by (rule binary64_exact[OF refl big]) simp
  have "estimateTokenCount str = round_half_even (of_nat (L + 16 * q) / 2 ^ 3)"
    unfolding estimateTokenCount_def Let_def length_split assms(2) L_def[symmetric] w a b s h ..
  also have "(of_nat (L + 16 * q) :: rat) / 2 ^ 3 = (of_nat L / 4 + of_nat (3 * q) / (3 / 4)) / 2"
    by simp
  finally show ?thesis
    by (simp only: assms(2) L_def)
qed

lemma estimate_inexact_case:
  assumes "length str < 2 ^ 40" and "\<not> 3 dvd word_count str"
  shows "estimateTokenCount str
    = round_half_even ((of_nat (length str) / 4 + of_nat (word_count str) / (3 / 4)) / 2)"
proof -
  define L where "L = length str"
  define W where "W = word_count str"
  have WL: "W \<le> L" using word_count_le[of str] by (simp add: L_def W_def)
  have L: "L < 2 ^ 40" using assms(1) by (simp add: L_def)
  have W1: "1 \<le> W" using assms(2) by (cases W) (simp_all add: W_def)
  have Lr: "(of_nat L :: rat) < 2 ^ 40"
    using L by (metis of_nat_less_iff of_nat_numeral of_nat_power)
  have Wr: "(of_nat W :: rat) \<le> of_nat L" and W1r: "(1::rat) \<le> of_nat W"
    using WL W1 by simp_all
  have "(2::nat) ^ 40 \<le> 2 ^ 53" by simp
  then have L53: "L < 2 ^ 53" and W53: "W < 2 ^ 53"
    using L WL by linarith+
  define a :: rat where "a = of_nat L / 4"
  define y1 :: rat where "y1 = of_nat W / (3 / 4)"
  define b where "b = binary64 y1"
  define sm where "sm = binary64 (a + b)"
  define h where "h = binary64 (sm / 2)"
  define x where "x = (a + y1) / 2"
  have a4: "(of_nat L :: rat) / 4 = of_nat L / 2 ^ 2" by simp
  have a_exact: "binary64 (of_nat L / 4) = a"
    unfolding a_def a4 by (rule binary64_exact[OF refl L53]) simp
  have "binary64 (of_nat W / 2 ^ 0) = of_nat W / 2 ^ 0"
    by (rule binary64_exact[OF refl W53]) simp
  then have w_exact: "binary64 (of_nat W) = of_nat W" by simp
  have est: "estimateTokenCount str = round_half_even h"
    unfolding estimateTokenCount_def Let_def length_split L_def[symmetric] W_def[symmetric]
      a_exact w_exact h_def sm_def b_def y1_def ..
  have a0: "0 \<le> a" and a38: "a < 274877906944"
    using Lr by (simp_all add: a_def)
  have y1lo: "4 / 3 \<le> y1" and y1hi: "y1 < 2199023255552"
    using W1r Wr Lr by (simp_all add: y1_def)
  have small: "(1::rat) / 2 ^ 11 = 1 / 2048" and p42: "(2::rat) ^ 42 = 4398046511104"
    by simp_all
  have "\<bar>b - y1\<bar> \<le> 1 / 2 ^ 11"
    unfolding b_def
  proof (rule binary64_error_small)
    show "1 / 4 \<le> y1" using y1lo by linarith
    show "y1 < 2 ^ 42" unfolding p42 using y1hi by linarith
  qed
  then have eb: "\<bar>b - y1\<bar> \<le> 1 / 2048"
    unfolding small .
  have "\<bar>sm - (a + b)\<bar> \<le> 1 / 2 ^ 11"
    unfolding sm_def
  proof (rule binary64_error_small)
    show "1 / 4 \<le> a + b" using eb a0 y1lo by linarith
    show "a + b < 2 ^ 42" unfolding p42 using eb a38 y1hi by linarith
  qed
  then have es: "\<bar>sm - (a + b)\<bar> \<le> 1 / 2048"
    unfolding small .
  have "\<bar>h - sm / 2\<bar> \<le> 1 / 2 ^ 11"
    unfolding h_def
  proof (rule binary64_error_small)
    show "1 / 4 \<le> sm / 2" using es eb a0 y1lo by linarith
    show "sm / 2 < 2 ^ 42" unfolding p42 using es eb a38 y1hi by linarith
  qed
  then have eh: "\<bar>h - sm / 2\<bar> \<le> 1 / 2048"
    unfolding small .
  have b1: "b \<le> y1 + 1 / 2048" and b2: "y1 \<le> b + 1 / 2048"
    using eb by linarith+
  have s1: "sm \<le> a + b + 1 / 2048" and s2: "a + b \<le> sm + 1 / 2048"
    using es by linarith+
  have h1: "h \<le> sm / 2 + 1 / 2048" and h2: "sm / 2 \<le> h + 1 / 2048"
    using eh by linarith+
  have "h - x < 1 / 24" and "x - h < 1 / 24"
    unfolding x_def using b1 b2 s1 s2 h1 h2 by (simp_all add: add_divide_distrib)
  then have near: "\<bar>h - x\<bar> < 1 / 24"
    by linarith
  have xN: "x = of_int (3 * int L + 16 * int W) / 24"
    by (simp add: x_def a_def y1_def)
  have "\<not> 3 dvd (3 * int L + 16 * int W)"
    using assms(2) unfolding W_def[symmetric] by presburger
  then have "round_half_even h = round_half_even x"
    using xN near round_half_even_stable by blast
  then show ?thesis
    using est by (simp add: x_def a_def y1_def L_def W_def)
qed

text \<open>
  C7. For every text of fewer than \<open>2 ^ 40\<close> characters, \<open>estimateTokenCount\<close>, computed
  in binary64 floating point as the program does, equals the exact value
  \<open>(length / 4 + words / 0.75) / 2\<close> rounded to the nearest integer, a tie going to the
  even integer (Python's \<open>round\<close>), where \<open>words\<close> is the number of
  whitespace-separated words. Being a function of the text alone, it gives the same
  text the same integer.
\<close>

theorem estimateTokenCount_formula:
  assumes "length str < 2 ^ 40"
  shows "\<exists>x. x = (of_nat (length str) / 4 + of_nat (word_count str) / (3 / 4)) / 2
     \<and> estimateTokenCount str = round_half_even x
     \<and> \<bar>of_int (estimateTokenCount str) - x\<bar> \<le> 1 / 2
     \<and> (\<bar>of_int (estimateTokenCount str) - x\<bar> = 1 / 2 \<longrightarrow> even (estimateTokenCount str))"
proof -
  define x :: rat where "x = (of_nat (length str) / 4 + of_nat (word_count str) / (3 / 4)) / 2"
  have "estimateTokenCount str = round_half_even x"
  proof cases
    assume "3 dvd word_count str"
    then obtain q where "word_count str = 3 * q" ..
    then show ?thesis
      unfolding x_def using assms by (rule estimate_exact_case[rotated])
  next
    assume "\<not> 3 dvd word_count str"
    then show ?thesis
      unfolding x_def using assms by (rule estimate_inexact_case[rotated])
  qed
  then have "x = (of_nat (length str) / 4 + of_nat (word_count str) / (3 / 4)) / 2
     \<and> estimateTokenCount str = round_half_even x
     \<and> \<bar>of_int (estimateTokenCount str) - x\<bar> \<le> 1 / 2
     \<and> (\<bar>of_int (estimateTokenCount str) - x\<bar> = 1 / 2 \<longrightarrow> even (estimateTokenCount str))"
    using round_half_even_near[of x] round_half_even_tie[of x] x_def by metis
  then show ?thesis by (rule exI)
qed

theorem estimateTokenCount_formula_witness:
  "estimateTokenCount ''a b c'' = 3
   \<and> (of_nat (length ''a b c'') / 4 + of_nat (word_count ''a b c'') / (3 / 4)) / 2 = (21 / 8 :: rat)"
proof -
  have l: "length ''a b c'' < 2 ^ 40" by simp
  have w: "word_count ''a b c'' = 3" by code_simp
  have x: "(of_nat (length ''a b c'') / 4 + of_nat (word_count ''a b c'') / (3 / 4)) / 2 = (21 / 8 :: rat)"
    unfolding w by simp
  have r: "round_half_even (21 / 8) = 3" by code_simp
  from estimateTokenCount_formula[OF l] have "estimateTokenCount ''a b c'' = round_half_even (21 / 8)"
    unfolding x by blast
  then show ?thesis using r x by simp
qed

end
